theory Spec2Isabelle
  imports Complex_Main "HOL-Library.Log_Nat"
begin

section \<open>Python values: exceptions and binary64 floats\<close>

text \<open>
  Every \<open>raise\<close> of the Python source is a value: a function that can raise returns
  \<open>py_error + 'a\<close>, with \<open>Inl\<close> the exception. \<open>KeyError\<close> is what \<open>d['k']\<close> raises on
  a dictionary without the key \<open>k\<close>; \<open>ZeroDivisionError\<close> is what \<open>/\<close> raises on a zero
  divisor.
\<close>

datatype py_error = KeyError | ZeroDivisionError

definition ebind :: "'e + 'a \<Rightarrow> ('a \<Rightarrow> 'e + 'b) \<Rightarrow> 'e + 'b" where
  "ebind m f = (case m of Inl e \<Rightarrow> Inl e | Inr v \<Rightarrow> f v)"

definition lookup :: "'a option \<Rightarrow> py_error + 'a" where
  \<comment> \<open>\<open>d['k']\<close>: a record field is \<open>None\<close> when the dictionary has no key \<open>k\<close>.\<close>
  "lookup field = (case field of None \<Rightarrow> Inl KeyError | Some v \<Rightarrow> Inr v)"

text \<open>
  A Python \<open>float\<close> is an IEEE 754 binary64 number. A finite float is modelled by the
  rational number it denotes, and every arithmetic operation is the exact operation
  followed by \<open>fl\<close>, rounding to the nearest number with a 53-bit significand, ties to
  even. \<open>expo x\<close> is the binary exponent of \<open>x\<close>, the integer \<open>e\<close> with \<open>2 powi e \<le> \<bar>x\<bar> < 2 powi (e + 1)\<close>. The exponent range is not
  bounded: overflow, subnormal numbers, infinities and NaN are outside the model, and
  so is the sign of zero.
\<close>

definition round_half_even :: "rat \<Rightarrow> int" where
  "round_half_even x =
     (let f = \<lfloor>x\<rfloor>; r = x - of_int f
      in if r < 1 / 2 then f else if 1 / 2 < r then f + 1 else if even f then f else f + 1)"

definition expo :: "rat \<Rightarrow> int" where
  "expo x =
     (let (p, q) = quotient_of \<bar>x\<bar>; k = bitlen p - bitlen q
      in if 2 powi k \<le> \<bar>x\<bar> then k else k - 1)"

definition fl :: "rat \<Rightarrow> rat" where
  "fl x = (if x = 0 then 0
           else of_int (round_half_even (x * 2 powi (52 - expo x))) * 2 powi (expo x - 52))"

definition float_div :: "rat \<Rightarrow> rat \<Rightarrow> py_error + rat" where
  \<comment> \<open>\<open>x / y\<close> on ints or floats: true division, correctly rounded.\<close>
  "float_div x y = (if y = 0 then Inl ZeroDivisionError else Inr (fl (x / y)))"

definition py_int :: "rat \<Rightarrow> int" where
  \<comment> \<open>\<open>int(x)\<close> on a float truncates toward zero.\<close>
  "py_int x = (if x < 0 then - \<lfloor>- x\<rfloor> else \<lfloor>x\<rfloor>)"

definition py_round :: "rat \<Rightarrow> rat" where
  \<comment> \<open>\<open>round(x)\<close> on a float: nearest integer, ties to even.\<close>
  "py_round x = of_int (round_half_even x)"

definition py_round2 :: "rat \<Rightarrow> rat" where
  \<comment> \<open>\<open>round(x, 2)\<close>: the exact value of \<open>x\<close> correctly rounded to two decimals (ties to
      even), then the float nearest to that decimal.\<close>
  "py_round2 x = fl (of_int (round_half_even (x * 100)) / 100)"

section \<open>Python strings\<close>

definition lower_char :: "char \<Rightarrow> char" where
  "lower_char c =
     (let n = (of_char c :: nat) in if 65 \<le> n \<and> n \<le> 90 then char_of (n + 32) else c)"

definition lower :: "string \<Rightarrow> string" where
  \<comment> \<open>\<open>s.lower()\<close> on ASCII text; other characters are left as they are.\<close>
  "lower s = map lower_char s"

fun starts_with :: "string \<Rightarrow> string \<Rightarrow> bool" where
  "starts_with [] s = True"
| "starts_with (c # cs) [] = False"
| "starts_with (c # cs) (d # ds) = (c = d \<and> starts_with cs ds)"

fun str_in :: "string \<Rightarrow> string \<Rightarrow> bool" where
  \<comment> \<open>\<open>sub in s\<close>: \<open>sub\<close> occurs in \<open>s\<close> as a contiguous substring.\<close>
  "str_in sub [] = (sub = [])"
| "str_in sub (c # cs) = (starts_with sub (c # cs) \<or> str_in sub cs)"

definition digit_char :: "nat \<Rightarrow> char" where
  "digit_char d = char_of (48 + d)"

function int_str :: "int \<Rightarrow> string" where
  \<comment> \<open>\<open>str(n)\<close> for an integer \<open>n \<ge> 0\<close>\<close>
  "int_str n =
     (if n < 10 then [digit_char (nat n)]
      else int_str (n div 10) @ [digit_char (nat (n mod 10))])"
  by pat_completeness auto

termination
  by (relation "measure nat") auto

declare int_str.simps [simp del]

definition pad_left :: "nat \<Rightarrow> string \<Rightarrow> string" where
  "pad_left k s = replicate (k - length s) (CHR ''0'') @ s"

fun shortest_places :: "nat \<Rightarrow> nat \<Rightarrow> rat \<Rightarrow> nat" where
  \<comment> \<open>the least number \<open>k\<close> of decimal places at which \<open>x\<close> rounded to \<open>k\<close> places reads
      back as the float \<open>x\<close>; the search gives up after \<open>fuel\<close> steps.\<close>
  "shortest_places 0 k x = k"
| "shortest_places (Suc fuel) k x =
     (if fl (of_int (round_half_even (x * 10 ^ k)) / 10 ^ k) = x then k
      else shortest_places fuel (Suc k) x)"

definition py_float_str :: "rat \<Rightarrow> string" where
  \<comment> \<open>\<open>f"{x}"\<close> for a float \<open>x \<ge> 0\<close>: the shortest decimal that reads back as \<open>x\<close>, with
      at least one decimal place. Python switches to exponent notation below \<open>1e-4\<close> and
      from \<open>1e16\<close> on; the model is for the floats in between, and zero.\<close>
  "py_float_str x =
     (let k = shortest_places 25 0 x;
          d = round_half_even (x * 10 ^ k)
      in int_str (d div 10 ^ k) @ ''.'' @
         (if k = 0 then ''0'' else pad_left k (int_str (d mod 10 ^ k))))"

fun sig_places :: "nat \<Rightarrow> nat \<Rightarrow> rat \<Rightarrow> nat" where
  \<comment> \<open>the number of decimal places that gives six significant digits.\<close>
  "sig_places 0 k x = k"
| "sig_places (Suc fuel) k x =
     (if 100000 \<le> x * 10 ^ k then k else sig_places fuel (Suc k) x)"

definition strip_zeros :: "string \<Rightarrow> string" where
  "strip_zeros s = rev (dropWhile (\<lambda>c. c = CHR ''0'') (rev s))"

definition py_format_plus_g :: "rat \<Rightarrow> string" where
  \<comment> \<open>\<open>f"{x:+g}"\<close>: an explicit sign, six significant digits, trailing zeros and a
      trailing point removed. Python switches to exponent notation below \<open>1e-4\<close> and from
      \<open>1e6\<close> on; the model is for the floats in between, and zero.\<close>
  "py_format_plus_g x =
     (let a = \<bar>x\<bar>;
          k = (if a = 0 then 0 else sig_places 10 0 a);
          d = round_half_even (a * 10 ^ k);
          frac = (if k = 0 then [] else strip_zeros (pad_left k (int_str (d mod 10 ^ k))))
      in (if x < 0 then ''-'' else ''+'') @ int_str (d div 10 ^ k) @
         (if frac = [] then [] else ''.'' @ frac))"

section \<open>The odds converter (\<open>src/analysis/odds_converter.py\<close>)\<close>

definition american_to_decimal :: "int \<Rightarrow> py_error + rat" where
  "american_to_decimal american_odds =
     (if american_odds > 0
      then ebind (float_div (of_int american_odds) 100) (\<lambda>t. Inr (fl (t + 1)))
      else ebind (float_div 100 (of_int \<bar>american_odds\<bar>)) (\<lambda>t. Inr (fl (t + 1))))"

definition decimal_to_american :: "rat \<Rightarrow> py_error + int" where
  "decimal_to_american decimal_odds =
     (if decimal_odds \<ge> 2
      then Inr (py_int (fl (fl (decimal_odds - 1) * 100)))
      else ebind (float_div (- 100) (fl (decimal_odds - 1))) (\<lambda>t. Inr (py_int t)))"

definition decimal_to_probability :: "rat \<Rightarrow> py_error + rat" where
  "decimal_to_probability decimal_odds =
     ebind (float_div 1 decimal_odds) (\<lambda>t. Inr (fl (t * 100)))"

definition american_to_probability :: "int \<Rightarrow> py_error + rat" where
  "american_to_probability american_odds =
     ebind (american_to_decimal american_odds) decimal_to_probability"

definition probability_to_decimal :: "rat \<Rightarrow> py_error + rat" where
  "probability_to_decimal probability = float_div 100 probability"

definition kalshi_price_to_probability :: "int \<Rightarrow> rat" where
  \<comment> \<open>\<open>float(price)\<close>: the float nearest to the integer.\<close>
  "kalshi_price_to_probability price = fl (of_int price)"

definition probability_to_kalshi_price :: "rat \<Rightarrow> int" where
  "probability_to_kalshi_price probability = py_int (py_round probability)"

section \<open>The comparator (\<open>src/analysis/comparator.py\<close>)\<close>

text \<open>
  The dictionaries the comparator reads. A field is \<open>None\<close> when the dictionary lacks
  the key, so that \<open>d['k']\<close> is \<open>lookup (k d)\<close>. Only the keys the comparator reads are
  kept. The sportsbook mapping is an association list in the dictionary's iteration
  order.
\<close>

record market =
  mtype :: "string option"
  home_spread :: "rat option"
  home_odds :: "int option"
  away_spread :: "rat option"
  away_odds :: "int option"

record match =
  home_team :: "string option"
  away_team :: "string option"
  markets :: "market list option"

record contract =
  ticker :: "string option"
  title :: "string option"
  subtitle :: "string option"
  yes_ask :: "int option"

record opportunity =
  match_name :: string
  sportsbook :: string
  sportsbook_market :: string
  sportsbook_odds :: int
  sportsbook_implied_prob :: rat
  kalshi_contract :: string
  kalshi_price :: int
  kalshi_implied_prob :: rat
  edge_percentage :: rat

datatype side = Home | Away

definition team_of :: "side \<Rightarrow> match \<Rightarrow> string option" where
  \<comment> \<open>\<open>match[f'{team}_team']\<close>\<close>
  "team_of team m = (case team of Home \<Rightarrow> home_team m | Away \<Rightarrow> away_team m)"

fun collect :: "('a \<Rightarrow> py_error + 'b list) \<Rightarrow> 'a list \<Rightarrow> py_error + 'b list" where
  \<comment> \<open>a \<open>for\<close> loop that extends a result list; the first exception ends it.\<close>
  "collect f [] = Inr []"
| "collect f (x # xs) =
     ebind (f x) (\<lambda>ys. ebind (collect f xs) (\<lambda>zs. Inr (ys @ zs)))"

definition find_matching_kalshi_markets ::
  "match \<Rightarrow> contract list \<Rightarrow> py_error + contract list" where
  "find_matching_kalshi_markets m kalshi_markets =
     ebind (lookup (home_team m)) (\<lambda>h.
     ebind (lookup (away_team m)) (\<lambda>a.
       collect (\<lambda>km.
         ebind (lookup (title km)) (\<lambda>t.
         ebind (lookup (subtitle km)) (\<lambda>s.
           if (str_in (lower h) (lower t) \<or> str_in (lower h) (lower s)) \<and>
              (str_in (lower a) (lower t) \<or> str_in (lower a) (lower s))
           then Inr [km] else Inr []))) kalshi_markets))"

definition spread_indicators :: "rat \<Rightarrow> string list" where
  "spread_indicators spread =
     (if spread > 0 then [''+'', ''plus'', ''more than''] else [''-'', ''minus'', ''less than''])"

definition is_matching_spread_market :: "contract \<Rightarrow> string \<Rightarrow> rat \<Rightarrow> py_error + bool" where
  "is_matching_spread_market kalshi_market team_name spread =
     ebind (lookup (title kalshi_market)) (\<lambda>t.
     ebind (lookup (subtitle kalshi_market)) (\<lambda>s.
       if \<not> str_in (lower team_name) (lower t) \<and> \<not> str_in (lower team_name) (lower s)
       then Inr False
       else Inr (list_ex (\<lambda>indicator. str_in indicator (lower s) \<and>
                                        str_in (py_float_str \<bar>spread\<bar>) (lower s))
                         (spread_indicators spread))))"

definition compare_spread_odds ::
  "rat \<Rightarrow> match \<Rightarrow> string \<Rightarrow> side \<Rightarrow> rat \<Rightarrow> int \<Rightarrow> contract list \<Rightarrow> py_error + opportunity list"
  where
  "compare_spread_odds threshold m sportsbook_name team spread odds kalshi_markets =
     ebind (american_to_probability odds) (\<lambda>sportsbook_prob.
     ebind (lookup (team_of team m)) (\<lambda>team_name.
       collect (\<lambda>kalshi_market.
         ebind (is_matching_spread_market kalshi_market team_name spread) (\<lambda>matching.
           if matching then
             ebind (lookup (yes_ask kalshi_market)) (\<lambda>price.
               let kalshi_prob = kalshi_price_to_probability price;
                   edge = \<bar>fl (sportsbook_prob - kalshi_prob)\<bar>
               in if edge \<ge> threshold then
                    ebind (lookup (home_team m)) (\<lambda>h.
                    ebind (lookup (away_team m)) (\<lambda>a.
                    ebind (lookup (ticker kalshi_market)) (\<lambda>tk.
                      Inr [\<lparr>match_name = h @ '' vs '' @ a,
                            sportsbook = sportsbook_name,
                            sportsbook_market = team_name @ '' '' @ py_format_plus_g spread,
                            sportsbook_odds = odds,
                            sportsbook_implied_prob = py_round2 sportsbook_prob,
                            kalshi_contract = tk,
                            kalshi_price = price,
                            kalshi_implied_prob = py_round2 kalshi_prob,
                            edge_percentage = py_round2 edge\<rparr>])))
                  else Inr [])
           else Inr [])) kalshi_markets))"

definition compare_market ::
  "rat \<Rightarrow> match \<Rightarrow> string \<Rightarrow> contract list \<Rightarrow> market \<Rightarrow> py_error + opportunity list" where
  \<comment> \<open>the body of the loop over \<open>match['markets']\<close>\<close>
  "compare_market threshold m sportsbook_name match_kalshi_markets mk =
     ebind (lookup (mtype mk)) (\<lambda>ty.
       if ty = ''spread'' then
         ebind (lookup (home_spread mk)) (\<lambda>hs.
         ebind (lookup (home_odds mk)) (\<lambda>ho.
         ebind (compare_spread_odds threshold m sportsbook_name Home hs ho match_kalshi_markets)
           (\<lambda>home_opportunities.
         ebind (lookup (away_spread mk)) (\<lambda>as.
         ebind (lookup (away_odds mk)) (\<lambda>ao.
         ebind (compare_spread_odds threshold m sportsbook_name Away as ao match_kalshi_markets)
           (\<lambda>away_opportunities.
           Inr (home_opportunities @ away_opportunities)))))))
       else Inr [])"

definition compare_match ::
  "rat \<Rightarrow> contract list \<Rightarrow> string \<Rightarrow> match \<Rightarrow> py_error + opportunity list" where
  \<comment> \<open>the body of the loop over the matches of one sportsbook\<close>
  "compare_match threshold kalshi_markets sportsbook_name m =
     ebind (find_matching_kalshi_markets m kalshi_markets) (\<lambda>match_kalshi_markets.
       if match_kalshi_markets = [] then Inr []
       else ebind (lookup (markets m))
              (collect (compare_market threshold m sportsbook_name match_kalshi_markets)))"

definition collect_opportunities ::
  "rat \<Rightarrow> (string \<times> match list) list \<Rightarrow> contract list \<Rightarrow> py_error + opportunity list" where
  \<comment> \<open>\<open>find_opportunities\<close> up to the final sort\<close>
  "collect_opportunities threshold sportsbook_data kalshi_markets =
     collect (\<lambda>(sportsbook_name, matches).
       collect (compare_match threshold kalshi_markets sportsbook_name) matches) sportsbook_data"

definition sort_by_edge :: "opportunity list \<Rightarrow> opportunity list" where
  \<comment> \<open>\<open>sort(key=lambda x: x['edge_percentage'], reverse=True)\<close>: stable, descending.\<close>
  "sort_by_edge opportunities = sort_key (\<lambda>x. - edge_percentage x) opportunities"

definition find_opportunities ::
  "rat \<Rightarrow> (string \<times> match list) list \<Rightarrow> contract list \<Rightarrow> py_error + opportunity list" where
  "find_opportunities threshold sportsbook_data kalshi_markets =
     ebind (collect_opportunities threshold sportsbook_data kalshi_markets)
       (\<lambda>opportunities. Inr (sort_by_edge opportunities))"

section \<open>The scenario of the repository's tests\<close>

definition test_match :: match where
  "test_match =
     \<lparr>home_team = Some ''Team A'', away_team = Some ''Team B'',
      markets = Some [\<lparr>mtype = Some ''spread'',
                        home_spread = Some (- 3 / 2), home_odds = Some (- 110),
                        away_spread = Some (3 / 2), away_odds = Some (- 110)\<rparr>]\<rparr>"

definition test_contract :: "string \<Rightarrow> contract" where
  \<comment> \<open>the contract of \<open>tests/test_comparator.py\<close>, with the subtitle left open\<close>
  "test_contract sub =
     \<lparr>ticker = Some ''SOCCER-TEAMA-TEAMB-123'', title = Some ''Team A vs Team B'',
      subtitle = Some sub, yes_ask = Some 45\<rparr>"

definition zero_odds_match :: match where
  "zero_odds_match =
     \<lparr>home_team = Some ''Team A'', away_team = Some ''Team B'',
      markets = Some [\<lparr>mtype = Some ''spread'',
                        home_spread = Some (- 3 / 2), home_odds = Some 0,
                        away_spread = Some (3 / 2), away_odds = Some (- 110)\<rparr>]\<rparr>"

definition edges :: "py_error + opportunity list \<Rightarrow> py_error + rat list" where
  "edges r = map_sum id (map edge_percentage) r"

definition count :: "py_error + opportunity list \<Rightarrow> py_error + nat" where
  "count r = map_sum id length r"

section \<open>Predicates used in the statements\<close>

text \<open>
  The edge of an emitted record before rounding, recomputed from the odds and the price
  the record carries, and the test \<open>find_opportunities\<close> applies to it.
\<close>

definition edge_of :: "opportunity \<Rightarrow> py_error + rat" where
  "edge_of x =
     ebind (american_to_probability (sportsbook_odds x))
       (\<lambda>sportsbook_prob.
          Inr \<bar>fl (sportsbook_prob - kalshi_price_to_probability (kalshi_price x))\<bar>)"

definition passes :: "rat \<Rightarrow> opportunity \<Rightarrow> bool" where
  "passes threshold x =
     (case edge_of x of Inl e \<Rightarrow> False
      | Inr edge \<Rightarrow> edge \<ge> threshold \<and> edge_percentage x = py_round2 edge)"








definition test_opportunity :: "int \<Rightarrow> rat \<Rightarrow> opportunity" where
  \<comment> \<open>the home-side record of the test match against a contract at the given price\<close>
  "test_opportunity price edge =
     \<lparr>match_name = ''Team A vs Team B'', sportsbook = ''test_sportsbook'',
      sportsbook_market = ''Team A -1.5'', sportsbook_odds = - 110,
      sportsbook_implied_prob = fl (5238 / 100),
      kalshi_contract = ''SOCCER-TEAMA-TEAMB-123'', kalshi_price = price,
      kalshi_implied_prob = of_int price, edge_percentage = edge\<rparr>"

section \<open>Properties of the float model\<close>

text \<open>
  The exponent brackets its argument between two powers of two; rounding to the nearest
  float is odd, monotone, keeps the sign, and leaves every number \<open>m * 2 powi e\<close> with
  \<open>\<bar>m\<bar> < 2 ^ 53\<close> as it is.
\<close>

lemma pow2_pos: "0 < (2::rat) powi k"
  by simp

lemma pow2_add: "(2::rat) powi (a + b) = 2 powi a * 2 powi b"
  by (simp add: power_int_add)

lemma pow2_mono: "a \<le> b \<Longrightarrow> (2::rat) powi a \<le> 2 powi b"
  by (rule power_int_increasing) simp_all

lemma pow2_strict_mono: "a < b \<Longrightarrow> (2::rat) powi a < 2 powi b"
  by (rule power_int_strict_increasing) simp_all

lemma pow2_succ: "(2::rat) powi (k + 1) = 2 * 2 powi k"
  by (simp add: power_int_add)

lemma bitlen_rat_bounds:
  assumes "0 < p"
  shows "(2::rat) powi (bitlen p - 1) \<le> of_int p" and "of_int p < (2::rat) powi (bitlen p)"
proof -
  have b: "1 \<le> bitlen p"
    using assms bitlen_eq_zero_iff [of p] bitlen_nonneg [of p] by linarith
  from bitlen_bounds [OF assms]
  have lo: "2 ^ nat (bitlen p - 1) \<le> p" and hi: "p < 2 ^ nat (bitlen p)" by simp_all
  have "(of_int (2 ^ nat (bitlen p - 1)) :: rat) \<le> of_int p"
    using lo by (simp only: of_int_le_iff)
  then show "(2::rat) powi (bitlen p - 1) \<le> of_int p"
    using b by (simp add: power_int_nonneg_exp)
  have "(of_int p :: rat) < of_int (2 ^ nat (bitlen p))"
    using hi by (simp only: of_int_less_iff)
  then show "of_int p < (2::rat) powi (bitlen p)"
    using b by (simp add: power_int_nonneg_exp)
qed

lemma expo_bounds:
  assumes "x \<noteq> 0"
  shows "2 powi (expo x) \<le> \<bar>x\<bar>" and "\<bar>x\<bar> < 2 powi (expo x + 1)"
proof -
  obtain p q where pq: "quotient_of \<bar>x\<bar> = (p, q)" by (cases "quotient_of \<bar>x\<bar>")
  have q: "0 < q" using pq by (rule quotient_of_denom_pos)
  have x: "\<bar>x\<bar> = of_int p / of_int q" using pq by (rule quotient_of_div)
  have "0 < \<bar>x\<bar>" using assms by simp
  then have p: "0 < p" using q x by (simp add: zero_less_divide_iff)
  define k where "k = bitlen p - bitlen q"
  have e: "expo x = (if 2 powi k \<le> \<bar>x\<bar> then k else k - 1)"
    by (simp add: expo_def pq k_def Let_def)
  have qr: "(0::rat) < of_int q" using q by simp
  have "of_int p < (2::rat) powi (bitlen p)" using p by (rule bitlen_rat_bounds)
  also have "\<dots> = 2 powi (k + 1) * 2 powi (bitlen q - 1)"
    by (simp add: k_def flip: pow2_add)
  also have "\<dots> \<le> 2 powi (k + 1) * of_int q"
    using bitlen_rat_bounds(1) [OF q] by (simp add: mult_left_mono)
  finally have hi: "\<bar>x\<bar> < 2 powi (k + 1)"
    using qr by (simp add: x pos_divide_less_eq)
  have "2 powi (k - 1) * of_int q < (2::rat) powi (k - 1) * 2 powi (bitlen q)"
    using bitlen_rat_bounds(2) [OF q] by (simp add: mult_strict_left_mono)
  also have "\<dots> = 2 powi (bitlen p - 1)"
    by (simp add: k_def flip: pow2_add)
  also have "\<dots> \<le> of_int p" using p by (rule bitlen_rat_bounds)
  finally have lo: "2 powi (k - 1) < \<bar>x\<bar>"
    using qr by (simp add: x pos_less_divide_eq)
  show "2 powi (expo x) \<le> \<bar>x\<bar>"
    using lo by (simp add: e)
  show "\<bar>x\<bar> < 2 powi (expo x + 1)"
    using hi by (auto simp add: e not_le)
qed

lemma expo_unique:
  assumes "2 powi e \<le> \<bar>x\<bar>" and "\<bar>x\<bar> < 2 powi (e + 1)"
  shows "expo x = e"
proof -
  have nz: "x \<noteq> 0"
  proof
    assume "x = 0"
    with assms(1) have "(2::rat) powi e \<le> 0" by simp
    moreover have "(0::rat) < 2 powi e" by simp
    ultimately show False by linarith
  qed
  note b = expo_bounds [OF nz]
  have "(2::rat) powi e < 2 powi (expo x + 1)"
    using assms(1) b(2) by (rule le_less_trans)
  then have 1: "e < expo x + 1"
    using pow2_mono [of "expo x + 1" e] by linarith
  have "(2::rat) powi (expo x) < 2 powi (e + 1)"
    using b(1) assms(2) by (rule le_less_trans)
  then have 2: "expo x < e + 1"
    using pow2_mono [of "e + 1" "expo x"] by linarith
  from 1 2 show ?thesis by simp
qed

lemma rhe_of_int: "round_half_even (of_int n) = n"
  by (simp add: round_half_even_def)

lemma rhe_lower: "of_int n \<le> x \<Longrightarrow> n \<le> round_half_even x"
proof -
  assume "of_int n \<le> x"
  then have "n \<le> \<lfloor>x\<rfloor>" by (simp add: le_floor_iff)
  moreover have "\<lfloor>x\<rfloor> \<le> round_half_even x"
    by (simp add: round_half_even_def Let_def)
  ultimately show ?thesis by linarith
qed

lemma rhe_upper: "x \<le> of_int n \<Longrightarrow> round_half_even x \<le> n"
proof -
  assume a: "x \<le> of_int n"
  have f: "\<lfloor>x\<rfloor> \<le> n" using a by (simp add: floor_le_iff)
  show ?thesis
  proof (cases "\<lfloor>x\<rfloor> = n")
    case True
    then have "x - of_int \<lfloor>x\<rfloor> \<le> 0" using a by simp
    then show ?thesis using True by (simp add: round_half_even_def Let_def)
  next
    case False
    then have "\<lfloor>x\<rfloor> + 1 \<le> n" using f by simp
    then show ?thesis using f by (simp add: round_half_even_def Let_def)
  qed
qed

lemma rhe_mono: "x \<le> y \<Longrightarrow> round_half_even x \<le> round_half_even y"
proof -
  assume xy: "x \<le> y"
  have fm: "\<lfloor>x\<rfloor> \<le> \<lfloor>y\<rfloor>" using xy by (rule floor_mono)
  show ?thesis
  proof (cases "\<lfloor>x\<rfloor> = \<lfloor>y\<rfloor>")
    case True
    then have "x - of_int \<lfloor>x\<rfloor> \<le> y - of_int \<lfloor>y\<rfloor>" using xy by simp
    then show ?thesis using True by (auto simp add: round_half_even_def Let_def)
  next
    case False
    then have "\<lfloor>x\<rfloor> + 1 \<le> \<lfloor>y\<rfloor>" using fm by simp
    moreover have "round_half_even x \<le> \<lfloor>x\<rfloor> + 1"
      by (simp add: round_half_even_def Let_def)
    moreover have "\<lfloor>y\<rfloor> \<le> round_half_even y"
      by (simp add: round_half_even_def Let_def)
    ultimately show ?thesis by linarith
  qed
qed

lemma rhe_minus: "round_half_even (- x) = - round_half_even x"
proof (cases "x \<in> \<int>")
  case True
  then obtain n where "x = of_int n" by (auto elim: Ints_cases)
  then show ?thesis by (simp add: rhe_of_int flip: of_int_minus)
next
  case False
  then have ne: "x \<noteq> of_int \<lfloor>x\<rfloor>" by (metis Ints_of_int)
  then have c: "\<lfloor>- x\<rfloor> = - \<lfloor>x\<rfloor> - 1"
    by (simp add: floor_minus ceiling_altdef)
  have r: "0 < x - of_int \<lfloor>x\<rfloor>"
    using ne of_int_floor_le [of x] by linarith
  show ?thesis
    using r by (auto simp add: round_half_even_def Let_def c)
qed


lemma expo_minus: "expo (- x) = expo x"
  by (simp add: expo_def)

lemma fl_minus: "fl (- x) = - fl x"
  by (simp add: fl_def expo_minus rhe_minus)

lemma scaled_bounds:
  assumes "0 < x"
  shows "2 powi 52 \<le> x * 2 powi (52 - expo x)" and "x * 2 powi (52 - expo x) \<le> 2 powi 53"
proof -
  have nz: "x \<noteq> 0" using assms by simp
  have lo: "2 powi (expo x) \<le> x" and hi: "x < 2 powi (expo x + 1)"
    using expo_bounds [OF nz] assms by simp_all
  have "(2::rat) powi 52 = 2 powi (expo x) * 2 powi (52 - expo x)"
    by (simp flip: pow2_add)
  also have "\<dots> \<le> x * 2 powi (52 - expo x)"
    using lo by (simp add: mult_right_mono)
  finally show "2 powi 52 \<le> x * 2 powi (52 - expo x)" .
  have "x * 2 powi (52 - expo x) \<le> 2 powi (expo x + 1) * 2 powi (52 - expo x)"
    using hi by (simp add: mult_right_mono)
  also have "\<dots> = 2 powi 53"
    by (simp flip: pow2_add)
  finally show "x * 2 powi (52 - expo x) \<le> 2 powi 53" .
qed

lemma fl_bounds:
  assumes "0 < x"
  shows "2 powi (expo x) \<le> fl x" and "fl x \<le> 2 powi (expo x + 1)"
proof -
  let ?m = "round_half_even (x * 2 powi (52 - expo x))"
  have f: "fl x = of_int ?m * 2 powi (expo x - 52)"
    using assms by (simp add: fl_def)
  have "(of_int (2 ^ 52) :: rat) \<le> x * 2 powi (52 - expo x)"
    using scaled_bounds(1) [OF assms] by simp
  then have "2 ^ 52 \<le> ?m" by (rule rhe_lower)
  then have "(of_int (2 ^ 52) :: rat) \<le> of_int ?m" by (simp only: of_int_le_iff)
  then have "(2::rat) powi 52 * 2 powi (expo x - 52) \<le> of_int ?m * 2 powi (expo x - 52)"
    by (simp add: mult_right_mono)
  moreover have "(2::rat) powi 52 * 2 powi (expo x - 52) = 2 powi (expo x)"
    using pow2_add [of 52 "expo x - 52"] by simp
  ultimately show "2 powi (expo x) \<le> fl x"
    by (simp only: f)
  have "x * 2 powi (52 - expo x) \<le> (of_int (2 ^ 53) :: rat)"
    using scaled_bounds(2) [OF assms] by simp
  then have "?m \<le> 2 ^ 53" by (rule rhe_upper)
  then have "(of_int ?m :: rat) \<le> of_int (2 ^ 53)" by (simp only: of_int_le_iff)
  then have "of_int ?m * 2 powi (expo x - 52) \<le> (2::rat) powi 53 * 2 powi (expo x - 52)"
    by (simp add: mult_right_mono)
  moreover have "(2::rat) powi 53 * 2 powi (expo x - 52) = 2 powi (expo x + 1)"
    using pow2_add [of 53 "expo x - 52"] by (simp add: add.commute)
  ultimately show "fl x \<le> 2 powi (expo x + 1)"
    by (simp only: f)
qed

lemma fl_pos: "0 < x \<Longrightarrow> 0 < fl x"
  using fl_bounds(1) [of x] pow2_pos [of "expo x"] by linarith

lemma fl_nonneg: "0 \<le> x \<Longrightarrow> 0 \<le> fl x"
  using fl_pos [of x] by (cases "x = 0") (simp_all add: fl_def)

lemma fl_nonpos: "x \<le> 0 \<Longrightarrow> fl x \<le> 0"
  using fl_nonneg [of "- x"] by (simp add: fl_minus)

lemma fl_mono_pos:
  assumes "0 < x" and "x \<le> y"
  shows "fl x \<le> fl y"
proof -
  have y: "0 < y" using assms by simp
  have nx: "x \<noteq> 0" and ny: "y \<noteq> 0" using assms by simp_all
  have "2 powi (expo x) \<le> x" using expo_bounds(1) [OF nx] assms(1) by simp
  also have "x \<le> y" by fact
  also have "y < 2 powi (expo y + 1)" using expo_bounds(2) [OF ny] y by simp
  finally have "expo x < expo y + 1"
    using pow2_mono [of "expo y + 1" "expo x"] by linarith
  then consider "expo x = expo y" | "expo x + 1 \<le> expo y" by linarith
  then show ?thesis
  proof cases
    case 1
    have "x * 2 powi (52 - expo y) \<le> y * 2 powi (52 - expo y)"
      using assms(2) by (simp add: mult_right_mono)
    then have "round_half_even (x * 2 powi (52 - expo y))
                 \<le> round_half_even (y * 2 powi (52 - expo y))"
      by (rule rhe_mono)
    then have "(of_int (round_half_even (x * 2 powi (52 - expo y))) :: rat)
                 \<le> of_int (round_half_even (y * 2 powi (52 - expo y)))"
      by (simp only: of_int_le_iff)
    then show ?thesis
      using nx ny by (simp add: fl_def 1 mult_right_mono)
  next
    case 2
    have "fl x \<le> 2 powi (expo x + 1)" using assms(1) by (rule fl_bounds)
    also have "\<dots> \<le> 2 powi (expo y)" using 2 by (rule pow2_mono)
    also have "\<dots> \<le> fl y" using y by (rule fl_bounds)
    finally show ?thesis .
  qed
qed

lemma fl_mono:
  assumes "x \<le> y"
  shows "fl x \<le> fl y"
proof -
  consider "0 < x" | "x \<le> 0" "0 \<le> y" | "y < 0" by linarith
  then show ?thesis
  proof cases
    case 1
    then show ?thesis using assms by (rule fl_mono_pos)
  next
    case 2
    then show ?thesis using fl_nonpos [of x] fl_nonneg [of y] by linarith
  next
    case 3
    then have "fl (- y) \<le> fl (- x)" using assms by (intro fl_mono_pos) simp_all
    then show ?thesis by (simp add: fl_minus)
  qed
qed

lemma fl_exact:
  assumes "\<bar>m\<bar> < 2 ^ 53"
  shows "fl (of_int m * 2 powi e) = of_int m * 2 powi e"
proof (cases "m = 0")
  case True
  then show ?thesis by (simp add: fl_def)
next
  case False
  let ?x = "of_int m * (2::rat) powi e"
  have nz: "?x \<noteq> 0" using False by simp
  have "(of_int \<bar>m\<bar> :: rat) < of_int (2 ^ 53)"
    using assms by (simp only: of_int_less_iff)
  then have m: "\<bar>of_int m :: rat\<bar> < 2 powi 53" by simp
  have "2 powi (expo ?x) \<le> \<bar>?x\<bar>" using nz by (rule expo_bounds)
  also have "\<bar>?x\<bar> = \<bar>of_int m\<bar> * 2 powi e" by (simp add: abs_mult)
  also have "\<dots> < 2 powi 53 * 2 powi e"
    using m by (simp add: mult_strict_right_mono)
  also have "\<dots> = 2 powi (53 + e)" by (simp add: pow2_add)
  finally have "expo ?x < 53 + e"
    using pow2_mono [of "53 + e" "expo ?x"] by linarith
  then have k: "0 \<le> e + 52 - expo ?x" by simp
  have "?x * 2 powi (52 - expo ?x) = of_int m * (2 powi e * 2 powi (52 - expo ?x))"
    by simp
  also have "2 powi e * (2::rat) powi (52 - expo ?x) = 2 powi (e + 52 - expo ?x)"
    by (simp add: algebra_simps flip: pow2_add)
  also have "\<dots> = of_int (2 ^ nat (e + 52 - expo ?x))"
    using k by (simp add: power_int_nonneg_exp)
  finally have "?x * 2 powi (52 - expo ?x) = of_int (m * 2 ^ nat (e + 52 - expo ?x))"
    by simp
  then have "round_half_even (?x * 2 powi (52 - expo ?x)) = m * 2 ^ nat (e + 52 - expo ?x)"
    by (simp only: rhe_of_int)
  then have "fl ?x = of_int (m * 2 ^ nat (e + 52 - expo ?x)) * 2 powi (expo ?x - 52)"
    using nz by (simp only: fl_def if_False)
  also have "\<dots> = of_int m * (2 powi (e + 52 - expo ?x) * 2 powi (expo ?x - 52))"
    using k by (simp add: power_int_nonneg_exp)
  also have "2 powi (e + 52 - expo ?x) * (2::rat) powi (expo ?x - 52) = 2 powi e"
    by (simp flip: pow2_add)
  finally show ?thesis .
qed

lemma fl_of_int: "\<bar>n\<bar> < 2 ^ 53 \<Longrightarrow> fl (of_int n) = of_int n"
  using fl_exact [of n 0] by simp

section \<open>Properties of the converter\<close>

lemma ebind_Inl [simp]: "ebind (Inl e) f = Inl e"
  by (simp add: ebind_def)

lemma ebind_Inr [simp]: "ebind (Inr v) f = f v"
  by (simp add: ebind_def)

lemma py_int_of_int: "py_int (of_int n) = n"
  by (simp add: py_int_def flip: of_int_minus)

lemma probability_upper:
  assumes "c \<le> t" and "0 < fl (c + 1)"
  shows "fl (fl (1 / fl (t + 1)) * 100) \<le> fl (fl (1 / fl (c + 1)) * 100)"
proof -
  have d: "fl (c + 1) \<le> fl (t + 1)" using assms(1) by (intro fl_mono) simp
  then have "1 / fl (t + 1) \<le> 1 / fl (c + 1)"
    using assms(2) by (simp add: frac_le)
  then have "fl (1 / fl (t + 1)) \<le> fl (1 / fl (c + 1))" by (rule fl_mono)
  then show ?thesis by (intro fl_mono) simp
qed

lemma probability_pos:
  assumes "0 \<le> t"
  shows "0 < fl (fl (1 / fl (t + 1)) * 100)"
proof -
  have "0 < fl (t + 1)" using assms by (intro fl_pos) simp
  then have "0 < fl (1 / fl (t + 1))" by (intro fl_pos) simp
  then show ?thesis by (intro fl_pos) simp
qed

lemma american_to_probability_eq:
  assumes "a \<noteq> 0"
  shows "american_to_probability a =
           Inr (fl (fl (1 / fl (fl (if 0 < a then of_int a / 100 else 100 / of_int \<bar>a\<bar>) + 1)) * 100))"
proof -
  let ?t = "fl (if 0 < a then of_int a / 100 else 100 / of_int \<bar>a\<bar>)"
  have "0 \<le> ?t" using assms by (intro fl_nonneg) simp
  then have "0 < fl (?t + 1)" by (intro fl_pos) simp
  then have nz: "fl (?t + 1) \<noteq> 0" by simp
  show ?thesis
  proof (cases "0 < a")
    case True
    then show ?thesis
      using nz
      by (simp add: american_to_probability_def american_to_decimal_def
          decimal_to_probability_def float_div_def)
  next
    case False
    then have "a < 0" using assms by simp
    then show ?thesis
      using nz
      by (simp add: american_to_probability_def american_to_decimal_def
          decimal_to_probability_def float_div_def)
  qed
qed

section \<open>Properties of the loops\<close>

lemma lookup_Some [simp]: "lookup (Some v) = Inr v"
  by (simp add: lookup_def)

lemma lookup_None [simp]: "lookup None = Inl KeyError"
  by (simp add: lookup_def)

lemma ebind_eq_Inr:
  "ebind m f = Inr r \<longleftrightarrow> (\<exists>v. m = Inr v \<and> f v = Inr r)"
  by (cases m) simp_all

lemma lookup_eq_Inr: "lookup x = Inr v \<longleftrightarrow> x = Some v"
  by (cases x) simp_all

lemma collect_member:
  assumes "collect f xs = Inr r" and "y \<in> set r"
  shows "\<exists>x \<in> set xs. \<exists>ys. f x = Inr ys \<and> y \<in> set ys"
  using assms
proof (induction xs arbitrary: r)
  case Nil
  then show ?case by simp
next
  case (Cons x xs)
  from Cons.prems(1) obtain ys zs where
    f: "f x = Inr ys" and c: "collect f xs = Inr zs" and r: "r = ys @ zs"
    by (auto simp add: ebind_eq_Inr)
  from Cons.prems(2) r consider "y \<in> set ys" | "y \<in> set zs" by auto
  then show ?case
  proof cases
    case 1
    then show ?thesis using f by auto
  next
    case 2
    then show ?thesis using Cons.IH [OF c] by auto
  qed
qed



section \<open>Properties of the comparator\<close>

lemma compare_spread_odds_passes:
  assumes "compare_spread_odds threshold m name team spread odds kms = Inr r" and "x \<in> set r"
  shows "passes threshold x"
proof -
  from assms(1) obtain sp tn where
    sp: "american_to_probability odds = Inr sp" and
    c: "collect (\<lambda>kalshi_market.
         ebind (is_matching_spread_market kalshi_market tn spread) (\<lambda>matching.
           if matching then
             ebind (lookup (yes_ask kalshi_market)) (\<lambda>price.
               let kalshi_prob = kalshi_price_to_probability price;
                   edge = \<bar>fl (sp - kalshi_prob)\<bar>
               in if edge \<ge> threshold then
                    ebind (lookup (home_team m)) (\<lambda>h.
                    ebind (lookup (away_team m)) (\<lambda>a.
                    ebind (lookup (ticker kalshi_market)) (\<lambda>tk.
                      Inr [\<lparr>match_name = h @ '' vs '' @ a,
                            sportsbook = name,
                            sportsbook_market = tn @ '' '' @ py_format_plus_g spread,
                            sportsbook_odds = odds,
                            sportsbook_implied_prob = py_round2 sp,
                            kalshi_contract = tk,
                            kalshi_price = price,
                            kalshi_implied_prob = py_round2 kalshi_prob,
                            edge_percentage = py_round2 edge\<rparr>])))
                  else Inr [])
           else Inr [])) kms = Inr r"
    unfolding compare_spread_odds_def by (auto simp add: ebind_eq_Inr)
  from collect_member [OF c assms(2)] show ?thesis
    by (auto simp add: ebind_eq_Inr Let_def passes_def edge_of_def sp split: if_splits)
qed

lemma compare_market_passes:
  assumes "compare_market threshold m name kms mk = Inr r" and "x \<in> set r"
  shows "passes threshold x"
proof (cases "mtype mk = Some ''spread''")
  case True
  from assms(1) obtain hs ho r1 as ao r2 where
    1: "compare_spread_odds threshold m name Home hs ho kms = Inr r1" and
    2: "compare_spread_odds threshold m name Away as ao kms = Inr r2" and
    r: "r = r1 @ r2"
    unfolding compare_market_def using True by (auto simp add: ebind_eq_Inr)
  from assms(2) r have "x \<in> set r1 \<or> x \<in> set r2" by simp
  then show ?thesis
    using compare_spread_odds_passes [OF 1] compare_spread_odds_passes [OF 2] by blast
next
  case False
  then have "r = []"
    using assms(1) unfolding compare_market_def
    by (auto simp add: ebind_eq_Inr lookup_eq_Inr split: if_splits)
  then show ?thesis using assms(2) by simp
qed

lemma compare_match_passes:
  assumes "compare_match threshold kms name m = Inr r" and "x \<in> set r"
  shows "passes threshold x"
proof -
  from assms(1) obtain cs where
    "(if cs = [] then Inr []
      else ebind (lookup (markets m)) (collect (compare_market threshold m name cs))) = Inr r"
    unfolding compare_match_def by (auto simp add: ebind_eq_Inr)
  then obtain mks where c: "collect (compare_market threshold m name cs) mks = Inr r"
    using assms(2) by (auto simp add: ebind_eq_Inr split: if_splits)
  from collect_member [OF c assms(2)] show ?thesis
    using compare_market_passes by blast
qed

lemma collect_opportunities_passes:
  assumes "collect_opportunities threshold data kms = Inr r" and "x \<in> set r"
  shows "passes threshold x"
proof -
  from collect_member [OF assms [unfolded collect_opportunities_def]]
  obtain name ms ys where
    c: "collect (compare_match threshold kms name) ms = Inr ys" and x: "x \<in> set ys"
    by auto
  from collect_member [OF c x] show ?thesis
    using compare_match_passes by blast
qed

lemma find_opportunities_eq_Inr:
  "find_opportunities threshold data kms = Inr r \<longleftrightarrow>
     (\<exists>ops. collect_opportunities threshold data kms = Inr ops \<and> r = sort_by_edge ops)"
  by (auto simp add: find_opportunities_def ebind_eq_Inr)

lemma set_sort_by_edge: "set (sort_by_edge ops) = set ops"
  by (simp add: sort_by_edge_def)

lemma py_round2_mono: "x \<le> y \<Longrightarrow> py_round2 x \<le> py_round2 y"
proof -
  assume "x \<le> y"
  then have "x * 100 \<le> y * 100" by simp
  then have "round_half_even (x * 100) \<le> round_half_even (y * 100)" by (rule rhe_mono)
  then have "(of_int (round_half_even (x * 100)) :: rat) \<le> of_int (round_half_even (y * 100))"
    by (simp only: of_int_le_iff)
  then have "(of_int (round_half_even (x * 100)) :: rat) / 100
               \<le> of_int (round_half_even (y * 100)) / 100"
    by (simp add: divide_right_mono)
  then show ?thesis unfolding py_round2_def by (rule fl_mono)
qed

lemma starts_with_iff: "starts_with sub s \<longleftrightarrow> (\<exists>q. s = sub @ q)"
  by (induction sub s rule: starts_with.induct) auto

lemma str_in_iff: "str_in sub s \<longleftrightarrow> (\<exists>p q. s = p @ sub @ q)"
proof (induction s)
  case Nil
  then show ?case by auto
next
  case (Cons c cs)
  show ?case
  proof
    assume "str_in sub (c # cs)"
    then consider "starts_with sub (c # cs)" | "str_in sub cs" by auto
    then show "\<exists>p q. c # cs = p @ sub @ q"
    proof cases
      case 1
      then obtain q where "c # cs = [] @ sub @ q" by (auto simp add: starts_with_iff)
      then show ?thesis by blast
    next
      case 2
      then obtain p q where "cs = p @ sub @ q" using Cons.IH by auto
      then have "c # cs = (c # p) @ sub @ q" by simp
      then show ?thesis by blast
    qed
  next
    assume "\<exists>p q. c # cs = p @ sub @ q"
    then obtain p q where pq: "c # cs = p @ sub @ q" by auto
    show "str_in sub (c # cs)"
    proof (cases p)
      case Nil
      then have "starts_with sub (c # cs)" using pq by (auto simp add: starts_with_iff)
      then show ?thesis by simp
    next
      case (Cons d ds)
      then have "cs = ds @ sub @ q" using pq by simp
      then have "str_in sub cs" using Cons.IH by auto
      then show ?thesis by simp
    qed
  qed
qed







lemma default_threshold_rounds: "py_round2 5 = 5"
  by code_simp

lemma scenario_spread_subtitle:
  "find_opportunities 5 [(''test_sportsbook'', [test_match])]
     [test_contract ''Team A -1.5 goals''] = Inr [test_opportunity 45 (fl (738 / 100))]"
  by code_simp

lemma scenario_two_contracts:
  "find_opportunities 5 [(''test_sportsbook'', [test_match])]
     [test_contract ''Team A -1.5 goals'',
      (test_contract ''Team A -1.5 goals'')\<lparr>yes_ask := Some 40\<rparr>] =
   Inr [test_opportunity 40 (fl (1238 / 100)), test_opportunity 45 (fl (738 / 100))]"
  by code_simp

section \<open>Zero odds\<close>

text \<open>
  C5. A spread market whose odds are the integer 0 is not accepted:
  \<open>american_to_decimal(0)\<close> takes the \<open>else\<close> branch and divides by \<open>abs(0)\<close>, and the
  \<open>ZeroDivisionError\<close> goes through \<open>american_to_probability\<close> and \<open>find_opportunities\<close>.
\<close>

theorem zero_odds_raise:
  "american_to_decimal 0 = Inl ZeroDivisionError \<and>
   american_to_probability 0 = Inl ZeroDivisionError \<and>
   find_opportunities 5 [(''test_sportsbook'', [zero_odds_match])]
     [test_contract ''Team A to win by 2+ goals''] = Inl ZeroDivisionError"
  by code_simp

section \<open>The concrete scenario\<close>

text \<open>
  C3, as stated, fails: on the test scenario with the subtitle
  \<open>Team A to win by 2+ goals\<close> the number of opportunities is not one.
\<close>

theorem scenario_not_one_opportunity:
  "count (find_opportunities 5 [(''test_sportsbook'', [test_match])]
            [test_contract ''Team A to win by 2+ goals'']) \<noteq> Inr 1"
  by code_simp

text \<open>
  C3, amended. On that scenario \<open>find_opportunities\<close> returns the empty list: the
  subtitle holds neither \<open>1.5\<close> nor one of \<open>-\<close>, \<open>minus\<close>, \<open>less than\<close>. With the subtitle
  \<open>Team A -1.5 goals\<close> it returns exactly one opportunity, for the home side, whose edge
  is the float nearest to 7.38.
\<close>

theorem scenario_result:
  "find_opportunities 5 [(''test_sportsbook'', [test_match])]
     [test_contract ''Team A to win by 2+ goals''] = Inr [] \<and>
   find_opportunities 5 [(''test_sportsbook'', [test_match])]
     [test_contract ''Team A -1.5 goals''] = Inr [test_opportunity 45 (fl (738 / 100))]"
proof -
  have "find_opportunities 5 [(''test_sportsbook'', [test_match])]
          [test_contract ''Team A to win by 2+ goals''] = Inr []"
    by code_simp
  then show ?thesis using scenario_spread_subtitle by simp
qed

section \<open>Round trips\<close>





text \<open>
  Elsewhere \<open>int()\<close> truncates the float quotient, and the round trip can land one short
  of \<open>a\<close>: \<open>-110\<close> comes back as \<open>-109\<close> and \<open>101\<close> as \<open>100\<close>; the decimal \<open>1.91\<close>, which
  \<open>tests/test_odds_converter.py\<close> expects to give \<open>-110\<close>, gives \<open>-109\<close>.
\<close>

lemma round_trip_truncates:
  "ebind (american_to_decimal (- 110)) decimal_to_american = Inr (- 109) \<and>
   ebind (american_to_decimal 101) decimal_to_american = Inr 100 \<and>
   decimal_to_american (fl (191 / 100)) = Inr (- 109)"
  by code_simp

text \<open>
  C9. For every integer price \<open>p\<close> from 0 to 100, \<open>kalshi_price_to_probability p\<close> is the
  float \<open>p\<close>, and \<open>probability_to_kalshi_price\<close> of that float is \<open>p\<close> again.
\<close>

theorem price_round_trip:
  assumes "0 \<le> p" and "p \<le> 100"
  shows "kalshi_price_to_probability p = of_int p \<and>
         probability_to_kalshi_price (kalshi_price_to_probability p) = p"
proof -
  have "\<bar>p\<bar> < 2 ^ 53" using assms by simp
  then have "fl (of_int p) = of_int p" by (rule fl_of_int)
  then show ?thesis
    by (simp add: kalshi_price_to_probability_def probability_to_kalshi_price_def
        py_round_def rhe_of_int py_int_of_int)
qed

theorem price_round_trip_witness:
  "(0::int) \<le> 65 \<and> (65::int) \<le> 100 \<and> kalshi_price_to_probability 65 = 65 \<and>
   probability_to_kalshi_price (kalshi_price_to_probability 65) = 65"
  using price_round_trip [of 65] by auto

section \<open>Probability bounds\<close>

text \<open>
  C8, as stated, fails for odds of large magnitude: at \<open>a = - (10 ^ 18)\<close> the quotient
  \<open>100 / abs(a)\<close> is below half the spacing of the floats at 1, the decimal odds round
  to \<open>1.0\<close>, and the probability is exactly \<open>100.0\<close>.
\<close>

theorem probability_not_below_100:
  "american_to_probability (- 1000000000000000000) = Inr 100"
  by code_simp

text \<open>
  C8, amended. For every nonzero American-odds integer \<open>a\<close> with \<open>\<bar>a\<bar> \<le> 9 * 10 ^ 17\<close>,
  \<open>american_to_probability a\<close> returns a probability strictly between 0 and 100.
\<close>

theorem probability_bounds:
  assumes "a \<noteq> 0" and "\<bar>a\<bar> \<le> 900000000000000000"
  shows "\<exists>p. american_to_probability a = Inr p \<and> 0 < p \<and> p < 100"
proof -
  let ?q = "if 0 < a then of_int a / 100 else 100 / of_int \<bar>a\<bar> :: rat"
  let ?c = "if 0 < a then 1 / 100 else 100 / 900000000000000000 :: rat"
  have q: "0 \<le> ?q" using assms(1) by simp
  have "?c \<le> ?q"
  proof (cases "0 < a")
    case True
    then have "(of_int 1 :: rat) \<le> of_int a" by (simp only: of_int_le_iff)
    then show ?thesis using True by simp
  next
    case False
    have "(of_int \<bar>a\<bar> :: rat) \<le> of_int 900000000000000000"
      using assms(2) by (simp only: of_int_le_iff)
    then have 1: "(of_int \<bar>a\<bar> :: rat) \<le> 900000000000000000" by simp
    have "(of_int 0 :: rat) < of_int \<bar>a\<bar>"
      using assms(1) by (simp only: of_int_less_iff)
    then have 2: "(0 :: rat) < of_int \<bar>a\<bar>" by simp
    have "(100 :: rat) / 900000000000000000 \<le> 100 / of_int \<bar>a\<bar>"
      using 2 1 by (intro frac_le) simp_all
    then show ?thesis using False by simp
  qed
  then have c: "fl ?c \<le> fl ?q" by (rule fl_mono)
  have "0 < fl (fl ?c + 1)" by (intro fl_pos) (simp add: fl_nonneg add_nonneg_pos)
  with c have "fl (fl (1 / fl (fl ?q + 1)) * 100) \<le> fl (fl (1 / fl (fl ?c + 1)) * 100)"
    by (rule probability_upper)
  moreover have "fl (fl (1 / fl (fl (1 / 100) + 1)) * 100) < 100"
    by code_simp
  moreover have "fl (fl (1 / fl (fl (100 / 900000000000000000) + 1)) * 100) < 100"
    by code_simp
  ultimately have "fl (fl (1 / fl (fl ?q + 1)) * 100) < 100"
    by (auto split: if_splits)
  moreover have "0 < fl (fl (1 / fl (fl ?q + 1)) * 100)"
    using q by (intro probability_pos fl_nonneg)
  ultimately show ?thesis
    using american_to_probability_eq [OF assms(1)] by simp
qed

theorem probability_bounds_witness:
  "(- 110 :: int) \<noteq> 0 \<and> \<bar>- 110 :: int\<bar> \<le> 900000000000000000 \<and>
   (\<exists>p. american_to_probability (- 110) = Inr p \<and> 0 < p \<and> p < 100)"
  using probability_bounds [of "- 110"] by simp

section \<open>The threshold\<close>

text \<open>
  C1, as stated, fails for a threshold with more than two decimals: the test is made on
  the edge before rounding, and the record stores the rounded edge. With threshold
  \<open>7.3809\<close> the scenario's edge \<open>7.380952...\<close> passes and is stored as \<open>7.38\<close>.
\<close>

theorem rounded_edge_below_threshold:
  "edges (find_opportunities (fl (73809 / 10000)) [(''test_sportsbook'', [test_match])]
            [test_contract ''Team A -1.5 goals'']) = Inr [fl (738 / 100)] \<and>
   fl (738 / 100) < fl (73809 / 10000)"
  by code_simp

text \<open>
  C1, amended. For every output record of \<open>find_opportunities\<close>, the edge before rounding
  (recomputed from the record's \<open>sportsbook_odds\<close> and \<open>kalshi_price\<close>) is at least the
  threshold, \<open>edge_percentage\<close> is that edge rounded to two decimals, and
  \<open>edge_percentage\<close> is at least the threshold rounded to two decimals.
\<close>

theorem edge_meets_threshold:
  assumes "find_opportunities threshold data kms = Inr r" and "x \<in> set r"
  shows "\<exists>edge. edge_of x = Inr edge \<and> threshold \<le> edge \<and>
                edge_percentage x = py_round2 edge \<and>
                py_round2 threshold \<le> edge_percentage x"
proof -
  from assms obtain ops where
    c: "collect_opportunities threshold data kms = Inr ops" and "x \<in> set ops"
    by (auto simp add: find_opportunities_eq_Inr set_sort_by_edge)
  then have "passes threshold x" by (rule collect_opportunities_passes)
  then obtain edge where
    e: "edge_of x = Inr edge" "threshold \<le> edge" "edge_percentage x = py_round2 edge"
    by (auto simp add: passes_def split: sum.splits)
  from e(2) have "py_round2 threshold \<le> py_round2 edge" by (rule py_round2_mono)
  with e show ?thesis by simp
qed

theorem edge_meets_threshold_witness:
  "find_opportunities 5 [(''test_sportsbook'', [test_match])]
     [test_contract ''Team A -1.5 goals''] = Inr [test_opportunity 45 (fl (738 / 100))] \<and>
   test_opportunity 45 (fl (738 / 100)) \<in> set [test_opportunity 45 (fl (738 / 100))] \<and>
   (\<exists>edge. edge_of (test_opportunity 45 (fl (738 / 100))) = Inr edge \<and> 5 \<le> edge \<and>
      edge_percentage (test_opportunity 45 (fl (738 / 100))) = py_round2 edge \<and>
      py_round2 5 \<le> edge_percentage (test_opportunity 45 (fl (738 / 100))))"
proof -
  have "test_opportunity 45 (fl (738 / 100)) \<in> set [test_opportunity 45 (fl (738 / 100))]"
    by simp
  from edge_meets_threshold [OF scenario_spread_subtitle this] scenario_spread_subtitle this
  show ?thesis by blast
qed

section \<open>The order of the result\<close>

text \<open>
  C6. The list returned by \<open>find_opportunities\<close> is sorted non-increasingly by
  \<open>edge_percentage\<close>: no element has a smaller edge than the element after it.
\<close>

theorem sorted_by_edge:
  assumes "find_opportunities threshold data kms = Inr r" and "Suc i < length r"
  shows "edge_percentage (r ! Suc i) \<le> edge_percentage (r ! i)"
proof -
  from assms(1) obtain ops where r: "r = sort_by_edge ops"
    by (auto simp add: find_opportunities_eq_Inr)
  have "sorted (map (\<lambda>x. - edge_percentage x) r)"
    unfolding r sort_by_edge_def by (rule sorted_sort_key)
  then have "map (\<lambda>x. - edge_percentage x) r ! i \<le> map (\<lambda>x. - edge_percentage x) r ! Suc i"
    using assms(2) by (simp add: sorted_iff_nth_Suc del: nth_map)
  then show ?thesis using assms(2) by simp
qed

theorem sorted_by_edge_witness:
  "find_opportunities 5 [(''test_sportsbook'', [test_match])]
     [test_contract ''Team A -1.5 goals'',
      (test_contract ''Team A -1.5 goals'')\<lparr>yes_ask := Some 40\<rparr>] =
   Inr [test_opportunity 40 (fl (1238 / 100)), test_opportunity 45 (fl (738 / 100))] \<and>
   Suc 0 < length [test_opportunity 40 (fl (1238 / 100)), test_opportunity 45 (fl (738 / 100))] \<and>
   edge_percentage
     ([test_opportunity 40 (fl (1238 / 100)), test_opportunity 45 (fl (738 / 100))] ! Suc 0)
   \<le> edge_percentage
     ([test_opportunity 40 (fl (1238 / 100)), test_opportunity 45 (fl (738 / 100))] ! 0)"
proof -
  have "Suc 0 < length [test_opportunity 40 (fl (1238 / 100)), test_opportunity 45 (fl (738 / 100))]"
    by simp
  from sorted_by_edge [OF scenario_two_contracts this] scenario_two_contracts this
  show ?thesis by blast
qed

section \<open>Candidate contracts\<close>



section \<open>The sign of a zero spread\<close>

text \<open>
  C10. A spread of exactly 0 is treated as a negative spread: the indicators are \<open>-\<close>,
  \<open>minus\<close> and \<open>less than\<close>, and a contract matches exactly when the team is mentioned
  and the subtitle holds \<open>0.0\<close> together with one of these three.
\<close>

theorem zero_spread_is_negative:
  "spread_indicators 0 = [''-'', ''minus'', ''less than''] \<and>
   is_matching_spread_market
     \<lparr>ticker = tk, title = Some t, subtitle = Some s, yes_ask = ya\<rparr> team 0 =
   Inr ((str_in (lower team) (lower t) \<or> str_in (lower team) (lower s)) \<and>
        str_in ''0.0'' (lower s) \<and>
        (str_in ''-'' (lower s) \<or> str_in ''minus'' (lower s) \<or> str_in ''less than'' (lower s)))"
proof -
  have "py_float_str 0 = ''0.0''" by code_simp
  then show ?thesis
    by (auto simp add: is_matching_spread_market_def spread_indicators_def)
qed

section \<open>Missing keys\<close>




end
